theory Spec2Isabelle
  imports Complex_Main "HOL-Library.Sublist"
begin

section \<open>Strings of the runtime\<close>

text \<open>
  A JavaScript string is modelled by the list of its code units, restricted to the code
  units below 256 (\<^typ>\<open>char\<close>, read as Latin-1). On that range the regular-expression
  class \<^verbatim>\<open>\s\<close> holds of TAB, LF, VT, FF, CR, SPACE and NO-BREAK SPACE.
\<close>

definition isWhiteSpace :: "char \<Rightarrow> bool" where
  "isWhiteSpace c = (c \<in> set [CHR 0x09, CHR 0x0A, CHR 0x0B, CHR 0x0C, CHR 0x0D, CHR 0x20, CHR 0xA0])"

text \<open>
  \<^verbatim>\<open>text.split(/\s+/)\<close>: the text is cut at every maximal run of white space. The piece
  before the first run and the piece after the last run are kept also when they are empty,
  so the empty text gives one empty piece.
\<close>

function split :: "string \<Rightarrow> string list" where
  "split s =
     (case dropWhile (\<lambda>c. \<not> isWhiteSpace c) s of
        [] \<Rightarrow> [s]
      | _ # rest \<Rightarrow> takeWhile (\<lambda>c. \<not> isWhiteSpace c) s # split (dropWhile isWhiteSpace rest))"
  by pat_completeness auto
termination
proof (relation "measure length")
  show "wf (measure length)" by simp
next
  fix s :: string and x21 :: char and x22 :: string
  assume a: "dropWhile (\<lambda>c. \<not> isWhiteSpace c) s = x21 # x22"
  have "length (dropWhile isWhiteSpace x22) \<le> length x22"
    by (rule length_dropWhile_le)
  moreover have "length (x21 # x22) \<le> length s"
    using length_dropWhile_le [of "\<lambda>c. \<not> isWhiteSpace c" s] a by simp
  ultimately show "(dropWhile isWhiteSpace x22, s) \<in> measure length"
    by simp
qed

declare split.simps [simp del]

text \<open>\<^verbatim>\<open>words.join(' ')\<close> and \<^verbatim>\<open>words.slice(start, end)\<close> (negative indices count from the end).\<close>

fun join :: "string \<Rightarrow> string list \<Rightarrow> string" where
  "join sep [] = []"
| "join sep [w] = w"
| "join sep (w # v # ws) = w @ sep @ join sep (v # ws)"

definition slice :: "'a list \<Rightarrow> int \<Rightarrow> int \<Rightarrow> 'a list" where
  "slice xs start end =
     (let len = int (length xs);
          k = (if start < 0 then max (len + start) 0 else min start len);
          final = (if end < 0 then max (len + end) 0 else min end len)
      in take (nat (final - k)) (drop (nat k) xs))"

section \<open>Numbers of the runtime\<close>

text \<open>
  The numbers the splitter computes are quotients of integers, rounded to an integer; a
  zero divisor gives an infinity or NaN. Negative zero prints and compares as zero.
\<close>

datatype number = Num int | PosInfinity | NegInfinity | NaN

definition quotient :: "int \<Rightarrow> int \<Rightarrow> (int \<Rightarrow> int \<Rightarrow> int) \<Rightarrow> number" where
  "quotient a b rounded =
     (if b = 0 then (if a = 0 then NaN else if 0 < a then PosInfinity else NegInfinity)
      else Num (rounded a b))"

definition ceil_div :: "int \<Rightarrow> int \<Rightarrow> number" where
  "ceil_div a b = quotient a b (\<lambda>a b. - ((- a) div b))"

definition floor_div :: "int \<Rightarrow> int \<Rightarrow> number" where
  "floor_div a b = quotient a b (\<lambda>a b. a div b)"

fun plus_one :: "number \<Rightarrow> number" where
  "plus_one (Num n) = Num (n + 1)"
| "plus_one x = x"

function digits :: "nat \<Rightarrow> string" where
  "digits n = (if n < 10 then [char_of (48 + n)] else digits (n div 10) @ [char_of (48 + n mod 10)])"
  by pat_completeness auto
termination
  by (relation "measure id") auto

declare digits.simps [simp del]

fun toString :: "number \<Rightarrow> string" where
  "toString (Num n) = (if n < 0 then CHR ''-'' # digits (nat (- n)) else digits (nat n))"
| "toString PosInfinity = ''Infinity''"
| "toString NegInfinity = ''-Infinity''"
| "toString NaN = ''NaN''"

section \<open>Prompt template\<close>

definition systemPromptForEachChunk :: string where
  "systemPromptForEachChunk =
     ''Initial user's message was too long to process in a single request. The message has been divided into smaller chunks and processed individually. You are in chunk #{{chunk_number}} / {{total_chunks}}. You can assume other chunks are similar to this one. You do not need to do an introduction or greeting in this chunk. Just start answer directly from the context of this chunk. You will be given 1) what the user has asked to do in the beginning of the chunk, and 2) the chunk of text. Here is the user's request: {{user_request}}. Here is the chunk of text: {{chunk_text}}. Please continue the conversation from this context.''"

text \<open>
  \<^verbatim>\<open>str.replace(pattern, replacement)\<close> with a string pattern: only the first occurrence
  is replaced, and in the replacement text \<^verbatim>\<open>$$\<close> stands for a dollar sign, \<^verbatim>\<open>$&\<close> for
  the matched text, \<^verbatim>\<open>$`\<close> for the text before the match and \<^verbatim>\<open>$'\<close> for the text
  after it. Any other dollar sign stands for itself (a string pattern has no groups).
\<close>

fun search :: "string \<Rightarrow> string \<Rightarrow> (string \<times> string) option" where
  "search pat [] = (if pat = [] then Some ([], []) else None)"
| "search pat (c # cs) =
     (if prefix pat (c # cs) then Some ([], drop (length pat) (c # cs))
      else map_option (\<lambda>(front, back). (c # front, back)) (search pat cs))"

fun getSubstitution :: "string \<Rightarrow> string \<Rightarrow> string \<Rightarrow> string \<Rightarrow> string" where
  "getSubstitution matched front back [] = []"
| "getSubstitution matched front back [c] = [c]"
| "getSubstitution matched front back (c # d # rest) =
     (if c = CHR ''$'' \<and> d = CHR ''$'' then CHR ''$'' # getSubstitution matched front back rest
      else if c = CHR ''$'' \<and> d = CHR ''&'' then matched @ getSubstitution matched front back rest
      else if c = CHR ''$'' \<and> d = CHR 0x60 then front @ getSubstitution matched front back rest
      else if c = CHR ''$'' \<and> d = CHR 0x27 then back @ getSubstitution matched front back rest
      else c # getSubstitution matched front back (d # rest))"

definition replace :: "string \<Rightarrow> string \<Rightarrow> string \<Rightarrow> string" where
  "replace str pat replacement =
     (case search pat str of
        None \<Rightarrow> str
      | Some (front, back) \<Rightarrow> front @ getSubstitution pat front back replacement @ back)"

section \<open>Chunk Splitter\<close>

definition buildPrompt :: "number \<Rightarrow> number \<Rightarrow> string \<Rightarrow> string \<Rightarrow> string" where
  "buildPrompt chunkNumber totalChunks userRequest chunkText =
     replace (replace (replace (replace systemPromptForEachChunk
       ''{{chunk_number}}'' (toString chunkNumber))
       ''{{total_chunks}}'' (toString totalChunks))
       ''{{user_request}}'' userRequest)
       ''{{chunk_text}}'' chunkText"

record chunk =
  prompt :: string
  chunkText :: string
  chunkNumber :: number
  totalChunks :: number

text \<open>
  The body of the \<^verbatim>\<open>for\<close> loop of \<^verbatim>\<open>processLongText\<close> at index \<open>i\<close>: the chunk it
  pushes.
\<close>

definition chunkAt :: "string list \<Rightarrow> string \<Rightarrow> int \<Rightarrow> number \<Rightarrow> int \<Rightarrow> chunk" where
  "chunkAt words userRequest chunkSize tot i =
     (let text = join '' '' (slice words i (i + chunkSize));
          nr = plus_one (floor_div i chunkSize)
      in \<lparr>prompt = buildPrompt nr tot userRequest text,
          chunkText = text, chunkNumber = nr, totalChunks = tot\<rparr>)"

text \<open>
  The loop \<^verbatim>\<open>for (let i = 0; i < words.length; i += chunkSize)\<close>. With a chunk size of
  zero or less the index never reaches the length, and the loop does not return: the value
  is \<open>None\<close>.
\<close>

partial_function (option) processLongText_loop ::
  "string list \<Rightarrow> string \<Rightarrow> int \<Rightarrow> number \<Rightarrow> int \<Rightarrow> chunk list \<Rightarrow> chunk list option" where
  "processLongText_loop words userRequest chunkSize tot i chunks =
     (if i < int (length words)
      then processLongText_loop words userRequest chunkSize tot (i + chunkSize)
             (chunks @ [chunkAt words userRequest chunkSize tot i])
      else Some chunks)"

declare processLongText_loop.simps [code]

definition processLongText :: "string \<Rightarrow> string \<Rightarrow> int \<Rightarrow> chunk list option" where
  "processLongText text userRequest chunkSize =
     (let words = split text;
          tot = ceil_div (int (length words)) chunkSize
      in processLongText_loop words userRequest chunkSize tot 0 [])"

text \<open>The number of passes of the loop that are still to come at index \<open>i\<close>.\<close>

definition iterations :: "int \<Rightarrow> int \<Rightarrow> int \<Rightarrow> nat" where
  "iterations n c i = nat (- ((i - n) div c))"

definition wordsLength :: "string \<Rightarrow> nat" where
  \<comment> \<open>\<^verbatim>\<open>words.length\<close>: the number of pieces the text is cut into\<close>
  "wordsLength text = length (split text)"

text \<open>
  The word count of a text as the specification means it: the number of words, a word
  being a maximal run of characters that are not white space. A blank text has no word.
  The flag tells whether the character before belongs to a word.
\<close>

fun numberOfWords :: "bool \<Rightarrow> string \<Rightarrow> nat" where
  "numberOfWords inWord [] = 0"
| "numberOfWords inWord (c # cs) =
     (if isWhiteSpace c then numberOfWords False cs
      else (if inWord then 0 else 1) + numberOfWords True cs)"

definition wordCount :: "string \<Rightarrow> nat" where
  "wordCount text = numberOfWords False text"

text \<open>
  The shape of what \<open>split\<close> returns: at least one piece, no white space inside a piece,
  and no empty piece except the first and the last.
\<close>

fun wordList :: "string list \<Rightarrow> bool" where
  "wordList [] = False"
| "wordList [w] = (\<forall>ch \<in> set w. \<not> isWhiteSpace ch)"
| "wordList (w # v # rest) =
     ((\<forall>ch \<in> set w. \<not> isWhiteSpace ch) \<and> (v = [] \<longrightarrow> rest = []) \<and> wordList (v # rest))"

text \<open>
  The prompt as the specification words it: the fixed text of the template, with the four
  values standing where the four placeholders stand. It is what \<open>buildPrompt\<close> is
  compared with.
\<close>

definition part1 :: string where
  "part1 = ''Initial user's message was too long to process in a single request. The message has been divided into smaller chunks and processed individually. You are in chunk #''"

definition part2 :: string where
  "part2 = '' / ''"

definition part3 :: string where
  "part3 = ''. You can assume other chunks are similar to this one. You do not need to do an introduction or greeting in this chunk. Just start answer directly from the context of this chunk. You will be given 1) what the user has asked to do in the beginning of the chunk, and 2) the chunk of text. Here is the user's request: ''"

definition part4 :: string where
  "part4 = ''. Here is the chunk of text: ''"

definition part5 :: string where
  "part5 = ''. Please continue the conversation from this context.''"

definition templateInstance :: "string \<Rightarrow> string \<Rightarrow> string \<Rightarrow> string \<Rightarrow> string" where
  "templateInstance chunk_number total_chunks user_request chunk_text =
     part1 @ chunk_number @ part2 @ total_chunks @ part3 @ user_request @ part4 @ chunk_text @ part5"

section \<open>Model Gateway\<close>

text \<open>
  The provider is outside the program: \<^verbatim>\<open>model.generateContent(message)\<close> followed by
  \<^verbatim>\<open>response.text()\<close> either gives a text (\<open>Inr\<close>) or throws an error with a message
  (\<open>Inl\<close>), and may depend on and change a state \<open>'w\<close> of its own. The environment
  pairs that state with the log of the messages sent to the provider, one per call.
\<close>

type_synonym 'w provider = "string \<Rightarrow> 'w \<Rightarrow> (string + string) \<times> 'w"

record 'w env =
  world :: 'w
  calls :: "string list"

definition geminiResponse ::
  "'w provider \<Rightarrow> string \<Rightarrow> 'w env \<Rightarrow> (string + string) \<times> 'w env" where
  "geminiResponse generateContent msg e =
     (case generateContent msg (world e) of
        (Inr text, w) \<Rightarrow> (Inr text, \<lparr>world = w, calls = calls e @ [msg]\<rparr>)
      | (Inl errorMessage, w) \<Rightarrow>
          (Inl (''Gemini API error: '' @ errorMessage), \<lparr>world = w, calls = calls e @ [msg]\<rparr>))"

definition modelResponse ::
  "'w provider \<Rightarrow> string \<Rightarrow> string \<Rightarrow> 'w env \<Rightarrow> (string + string) \<times> 'w env" where
  "modelResponse generateContent providerId msg e =
     (if providerId = ''gemini'' then geminiResponse generateContent msg e
      else geminiResponse generateContent msg e)"

section \<open>Sequential Processor\<close>

text \<open>
  \<^verbatim>\<open>toLowerCase\<close> on the code units below 256: the letters A to Z and the accented capitals
  0xC0 to 0xDE (the multiplication sign 0xD7 apart) move up by 32.
\<close>

definition lowerChar :: "char \<Rightarrow> char" where
  "lowerChar c =
     (let n = (of_char c :: nat)
      in if (65 \<le> n \<and> n \<le> 90) \<or> (192 \<le> n \<and> n \<le> 222 \<and> n \<noteq> 215) then char_of (n + 32) else c)"

definition toLowerCase :: "string \<Rightarrow> string" where
  "toLowerCase str = map lowerChar str"

definition includes_str :: "string \<Rightarrow> string \<Rightarrow> bool" where
  "includes_str str pat = (case search pat str of None \<Rightarrow> False | Some _ \<Rightarrow> True)"

definition isRateLimit :: "string \<Rightarrow> bool" where
  "isRateLimit errorMessage =
     (includes_str (toLowerCase errorMessage) ''429'' \<or>
      includes_str (toLowerCase errorMessage) ''too many requests'')"

record outcome = chunk +
  response :: "string option"
  error :: "string option"

definition recorded :: "chunk \<Rightarrow> string option \<Rightarrow> string option \<Rightarrow> outcome" where
  \<comment> \<open>\<^verbatim>\<open>{...chunk, response, error}\<close>\<close>
  "recorded c r err =
     \<lparr>prompt = prompt c, chunkText = chunkText c, chunkNumber = chunkNumber c,
      totalChunks = totalChunks c, response = r, error = err\<rparr>"

text \<open>
  The \<^verbatim>\<open>for ... of\<close> loop of \<^verbatim>\<open>processChunks\<close>, with the array \<^verbatim>\<open>results\<close> and the
  environment passed along. The flag of the result is \<^verbatim>\<open>hitRateLimit\<close>: it is set only
  where the loop is left by \<^verbatim>\<open>break\<close>.
\<close>

fun processChunks_loop ::
  "'w provider \<Rightarrow> chunk list \<Rightarrow> outcome list \<Rightarrow> 'w env \<Rightarrow> (outcome list \<times> bool) \<times> 'w env" where
  "processChunks_loop g [] acc e = ((acc, False), e)"
| "processChunks_loop g (c # rest) acc e =
     (case modelResponse g ''gemini'' (prompt c) e of
        (Inr text, e') \<Rightarrow> processChunks_loop g rest (acc @ [recorded c (Some text) None]) e'
      | (Inl errorMessage, e') \<Rightarrow>
          if isRateLimit errorMessage then ((acc, True), e')
          else processChunks_loop g rest (acc @ [recorded c None (Some errorMessage)]) e')"

record processingResult =
  results :: "outcome list"
  hitRateLimit :: bool
  processedCount :: nat
  totalCount :: nat

definition processChunks ::
  "'w provider \<Rightarrow> chunk list \<Rightarrow> 'w env \<Rightarrow> processingResult \<times> 'w env" where
  "processChunks g chunks e =
     (case processChunks_loop g chunks [] e of
        ((acc, hit), e') \<Rightarrow>
          (\<lparr>results = acc, hitRateLimit = hit, processedCount = length acc,
            totalCount = length chunks\<rparr>, e'))"

section \<open>Request Handler\<close>

text \<open>
  The fields \<^verbatim>\<open>message\<close>, \<^verbatim>\<open>mode\<close> and \<^verbatim>\<open>fullText\<close> of the request body are strings
  or absent. A value is truthy when it is present and not the empty string; an absent
  value prints as \<^verbatim>\<open>null\<close> in a template string.
\<close>

definition truthy :: "string option \<Rightarrow> bool" where
  "truthy v = (case v of None \<Rightarrow> False | Some str \<Rightarrow> str \<noteq> [])"

definition stringOf :: "string option \<Rightarrow> string" where
  "stringOf v = (case v of None \<Rightarrow> ''null'' | Some str \<Rightarrow> str)"

definition successfulResponses :: "outcome list \<Rightarrow> nat \<Rightarrow> string list" where
  "successfulResponses processedChunks tc =
     map (\<lambda>c. ''[Part '' @ toString (chunkNumber c) @ ''/'' @ digits tc @ '']'' @ [CHR 0x0A]
               @ stringOf (response c))
         (filter (\<lambda>c. truthy (response c)) processedChunks)"

definition statusMessage :: "bool \<Rightarrow> nat \<Rightarrow> nat \<Rightarrow> string" where
  "statusMessage hit pc tc =
     (if hit
      then [CHR 0x0A, CHR 0x0A] @ ''[Note: Rate limit reached. Processed '' @ digits pc
           @ '' out of '' @ digits tc
           @ '' chunks. Please wait a moment before requesting more.]''
      else [])"

definition responseText :: "processingResult \<Rightarrow> string" where
  "responseText r =
     join [CHR 0x0A, CHR 0x0A] (successfulResponses (results r) (totalCount r))
       @ statusMessage (hitRateLimit r) (processedCount r) (totalCount r)"

record request =
  reqMethod :: string
  message :: "string option"
  mode :: "string option"
  fullText :: "string option"

datatype body =
    ErrorBody string
  | ErrorDetails string string
  | DefaultMode string
  | InfiniteMode string "outcome list" bool nat nat

type_synonym reply = "nat \<times> body"

definition infiniteContext ::
  "'w provider \<Rightarrow> string \<Rightarrow> string \<Rightarrow> 'w env \<Rightarrow> (reply \<times> 'w env) option" where
  "infiniteContext g text msg e =
     (case processLongText text msg 500 of
        None \<Rightarrow> None
      | Some chunks \<Rightarrow>
          (case processChunks g chunks e of
             (r, e') \<Rightarrow>
               Some ((200, InfiniteMode (responseText r) (results r) (hitRateLimit r)
                             (processedCount r) (totalCount r)), e')))"

definition regularChat ::
  "'w provider \<Rightarrow> string \<Rightarrow> 'w env \<Rightarrow> (reply \<times> 'w env) option" where
  "regularChat g msg e =
     (case modelResponse g ''gemini'' msg e of
        (Inr text, e') \<Rightarrow> Some ((200, DefaultMode text), e')
      | (Inl errorMessage, e') \<Rightarrow>
          Some ((500, ErrorDetails ''Internal server error'' errorMessage), e'))"

definition handler :: "'w provider \<Rightarrow> request \<Rightarrow> 'w env \<Rightarrow> (reply \<times> 'w env) option" where
  "handler g req e =
     (if reqMethod req \<noteq> ''POST'' then Some ((405, ErrorBody ''Method not allowed''), e)
      else if \<not> truthy (message req) then Some ((400, ErrorBody ''Message is required''), e)
      else if mode req = Some ''infinite'' \<and> truthy (fullText req)
      then infiniteContext g (stringOf (fullText req)) (stringOf (message req)) e
      else regularChat g (stringOf (message req)) e)"

section \<open>A scripted provider\<close>

text \<open>
  A provider that answers its calls from a fixed list of outcomes, in order; its state is
  the number of calls made so far. It realises any pattern of successes and failures.
\<close>

definition scripted :: "(string + string) list \<Rightarrow> nat provider" where
  "scripted outcomes msg n = (if n < length outcomes then outcomes ! n else Inr [], Suc n)"

definition sampleChunk :: "nat \<Rightarrow> string \<Rightarrow> chunk" where
  "sampleChunk n p = \<lparr>prompt = p, chunkText = p, chunkNumber = Num (int n), totalChunks = Num 3\<rparr>"

definition start :: "nat env" where
  "start = \<lparr>world = 0, calls = []\<rparr>"

section \<open>Properties of the Chunk Splitter\<close>

subsection \<open>The loop returns exactly when the chunk size is positive\<close>

lemma iterations_done: "0 < c \<Longrightarrow> n \<le> i \<Longrightarrow> iterations n c i = 0"
  by (simp add: iterations_def pos_imp_zdiv_nonneg_iff)

lemma iterations_step:
  assumes "0 < c" "i < n"
  shows "iterations n c i = Suc (iterations n c (i + c))"
proof -
  have e: "(i + c - n) div c = (i - n) div c + 1"
    using assms by (simp add: add_diff_eq [symmetric] add.commute [of i c] )
  have "(i - n) div c < 0"
    using assms by (simp add: pos_imp_zdiv_neg_iff)
  then show ?thesis
    unfolding iterations_def e by simp
qed

lemma processLongText_loop_pos:
  assumes "0 < c"
  shows "processLongText_loop ws u c tot i chunks =
           Some (chunks @ map (\<lambda>j. chunkAt ws u c tot (i + int j * c))
                              [0..<iterations (int (length ws)) c i])"
proof (induction "iterations (int (length ws)) c i" arbitrary: i chunks)
  case 0
  have "\<not> i < int (length ws)"
    using iterations_step [OF assms, of i "int (length ws)"] 0 by auto
  then show ?case
    using 0 by (subst processLongText_loop.simps) simp
next
  case (Suc k)
  have lt: "i < int (length ws)"
    using iterations_done [OF assms, of "int (length ws)" i] Suc.hyps(2) by (cases "i < int (length ws)") auto
  have k: "k = iterations (int (length ws)) c (i + c)"
    using iterations_step [OF assms lt] Suc.hyps(2) by simp
  have "processLongText_loop ws u c tot i chunks =
          processLongText_loop ws u c tot (i + c) (chunks @ [chunkAt ws u c tot i])"
    using lt by (subst processLongText_loop.simps) simp
  also have "\<dots> = Some ((chunks @ [chunkAt ws u c tot i]) @
                 map (\<lambda>j. chunkAt ws u c tot (i + c + int j * c)) [0..<k])"
    using Suc.hyps(1) [OF k] k by simp
  also have "map (\<lambda>j. chunkAt ws u c tot (i + c + int j * c)) [0..<k] =
             map (\<lambda>j. chunkAt ws u c tot (i + int j * c)) (map Suc [0..<k])"
    by (simp add: algebra_simps)
  finally show ?case
    unfolding Suc.hyps(2) [symmetric] by (simp add: upt_conv_Cons map_Suc_upt del: upt_Suc)
qed

lemma ceiling_quotient: "\<lceil>real_of_int a / real_of_int c\<rceil> = - ((- a) div c)"
proof -
  have "\<lceil>real_of_int a / real_of_int c\<rceil> = - \<lfloor>real_of_int (- a) / real_of_int c\<rfloor>"
    by (simp add: ceiling_def)
  then show ?thesis
    by (simp only: floor_divide_of_int_eq)
qed

lemma split_not_Nil: "split s \<noteq> []"
  by (subst split.simps) (simp split: list.splits)

lemma wordsLength_pos: "0 < wordsLength text"
  by (simp add: wordsLength_def split_not_Nil)

lemma processLongText_pos:
  assumes "0 < c"
  shows "processLongText text u c =
           Some (map (\<lambda>j. chunkAt (split text) u c (Num (- ((- int (wordsLength text)) div c))) (int j * c))
                     [0..<nat (- ((- int (wordsLength text)) div c))])"
  using assms
  by (simp add: processLongText_def Let_def processLongText_loop_pos iterations_def
      ceil_div_def quotient_def wordsLength_def)

lemma totalChunks_chunkAt [simp]: "totalChunks (chunkAt ws u c tot i) = tot"
  by (simp add: chunkAt_def Let_def)

lemma chunkText_chunkAt [simp]:
  "chunkText (chunkAt ws u c tot i) = join '' '' (slice ws i (i + c))"
  by (simp add: chunkAt_def Let_def)

lemma chunkNumber_chunkAt [simp]:
  "chunkNumber (chunkAt ws u c tot i) = plus_one (floor_div i c)"
  by (simp add: chunkAt_def Let_def)

lemma prompt_chunkAt [simp]:
  "prompt (chunkAt ws u c tot i) =
     buildPrompt (plus_one (floor_div i c)) tot u (join '' '' (slice ws i (i + c)))"
  by (simp add: chunkAt_def Let_def)

lemma processLongText_loop_Some:
  assumes "processLongText_loop ws u c tot i chunks = Some y"
  shows "0 < c \<or> int (length ws) \<le> i"
proof (rule processLongText_loop.raw_induct
        [where P = "\<lambda>ws u c tot i chunks y. 0 < c \<or> int (length ws) \<le> i", OF _ assms])
  fix f :: "string list \<Rightarrow> string \<Rightarrow> int \<Rightarrow> number \<Rightarrow> int \<Rightarrow> chunk list \<Rightarrow> chunk list option"
    and ws u c tot i chunks y
  assume IH: "\<And>ws u c tot i chunks y. f ws u c tot i chunks = Some y \<Longrightarrow> 0 < c \<or> int (length ws) \<le> i"
    and eq: "(if i < int (length ws)
              then f ws u c tot (i + c) (chunks @ [chunkAt ws u c tot i])
              else Some chunks) = Some y"
  show "0 < c \<or> int (length ws) \<le> i"
  proof (cases "i < int (length ws)")
    case True
    with eq have "0 < c \<or> int (length ws) \<le> i + c"
      by (auto dest: IH)
    with True show ?thesis by auto
  next
    case False
    then show ?thesis by simp
  qed
qed

lemma processLongText_diverges:
  assumes "chunkSize \<le> 0"
  shows "processLongText text userRequest chunkSize = None"
proof (cases "processLongText text userRequest chunkSize")
  case None
  then show ?thesis .
next
  case (Some y)
  then have "0 < chunkSize \<or> int (length (split text)) \<le> 0"
    unfolding processLongText_def Let_def by (rule processLongText_loop_Some)
  then show ?thesis
    using assms split_not_Nil [of "text"] by simp
qed

subsection \<open>Length of the result\<close>

text \<open>
  For a positive chunk size the loop makes \<open>\<lceil>words.length / chunkSize\<rceil>\<close> passes, and every
  chunk carries that number.
\<close>

lemma processLongText_length:
  assumes "0 < chunkSize"
  shows "\<exists>chunks. processLongText text userRequest chunkSize = Some chunks
           \<and> int (length chunks) = \<lceil>real (wordsLength text) / real_of_int chunkSize\<rceil>
           \<and> (\<forall>c \<in> set chunks.
                 totalChunks c = Num \<lceil>real (wordsLength text) / real_of_int chunkSize\<rceil>)"
proof -
  let ?n = "- ((- int (wordsLength text)) div chunkSize)"
  have c: "\<lceil>real (wordsLength text) / real_of_int chunkSize\<rceil> = ?n"
    using ceiling_quotient [of "int (wordsLength text)" chunkSize] by simp
  have "0 \<le> ?n"
    using assms by (simp add: div_nonpos_pos_le0)
  then show ?thesis
    unfolding c processLongText_pos [OF assms] by auto
qed

subsection \<open>Splitting and joining\<close>

lemma split_word:
  assumes "\<forall>ch \<in> set w. \<not> isWhiteSpace ch"
  shows "split w = [w]"
proof -
  have d: "dropWhile (\<lambda>c. \<not> isWhiteSpace c) w = []"
    using assms by simp
  show ?thesis
    by (subst split.simps) (simp only: d list.case)
qed

lemma split_word_space:
  assumes "\<forall>ch \<in> set w. \<not> isWhiteSpace ch" and "isWhiteSpace x"
  shows "split (w @ x # s) = w # split (dropWhile isWhiteSpace s)"
  using assms by (subst split.simps) (simp add: dropWhile_append3 takeWhile_tail)

lemma split_blank:
  assumes "\<forall>ch \<in> set s. isWhiteSpace ch" and "s \<noteq> []"
  shows "split s = [[], []]"
proof -
  obtain x r where s: "s = x # r"
    using assms(2) by (cases s) auto
  have d: "dropWhile isWhiteSpace r = []"
    using assms(1) s by simp
  have "split (x # r) = [] # split (dropWhile isWhiteSpace r)"
    using split_word_space [of "[]" x r] assms(1) s by simp
  then show ?thesis
    unfolding d s by (simp add: split_word)
qed

lemma hd_split:
  assumes "s \<noteq> []" and "\<not> isWhiteSpace (hd s)"
  shows "hd (split s) \<noteq> []"
  using assms by (subst split.simps) (auto split: list.splits simp: takeWhile_eq_Nil_iff)

lemma wordList_split: "wordList (split s)"
proof (induction s rule: split.induct)
  case (1 s)
  show ?case
  proof (cases "dropWhile (\<lambda>c. \<not> isWhiteSpace c) s")
    case Nil
    then have "split s = [s]"
      by (simp add: split_word)
    then show ?thesis
      using Nil by simp
  next
    case (Cons x r)
    let ?s' = "dropWhile isWhiteSpace r"
    have w: "\<forall>ch \<in> set (takeWhile (\<lambda>c. \<not> isWhiteSpace c) s). \<not> isWhiteSpace ch"
      by (auto dest: set_takeWhileD)
    have IH: "wordList (split ?s')"
      using 1 Cons by simp
    obtain v rest where vr: "split ?s' = v # rest"
      using split_not_Nil [of ?s'] by (cases "split ?s'") auto
    have "v = [] \<longrightarrow> rest = []"
    proof (cases "?s' = []")
      case True
      have "split [] = [[]]"
        by (simp add: split_word)
      then show ?thesis
        using vr unfolding True by simp
    next
      case False
      then have "\<not> isWhiteSpace (hd ?s')"
        by (rule hd_dropWhile)
      then show ?thesis
        using hd_split [OF False] vr by simp
    qed
    then show ?thesis
      using Cons w IH vr by (subst split.simps) simp
  qed
qed

lemma join_Cons: "ws \<noteq> [] \<Longrightarrow> join sep (w # ws) = w @ sep @ join sep ws"
  by (cases ws) simp_all

lemma join_append:
  "xs \<noteq> [] \<Longrightarrow> ys \<noteq> [] \<Longrightarrow> join sep (xs @ ys) = join sep xs @ sep @ join sep ys"
  by (induction sep xs rule: join.induct) (simp_all add: join_Cons)

lemma hd_join: "ws \<noteq> [] \<Longrightarrow> hd ws \<noteq> [] \<Longrightarrow> hd (join sep ws) = hd (hd ws)"
  by (induction sep ws rule: join.induct) simp_all

lemma join_Nil_iff: "wordList (v # rest) \<Longrightarrow> (join '' '' (v # rest) = []) = (v = [] \<and> rest = [])"
  by (cases rest) auto

lemma split_join:
  assumes "wordList ws"
  shows "split (join '' '' ws) = ws"
  using assms
proof (induction ws rule: wordList.induct)
  case 1
  then show ?case by simp
next
  case (2 w)
  then show ?case by (simp add: split_word)
next
  case (3 w v rest)
  let ?t = "join '' '' (v # rest)"
  have sp: "isWhiteSpace CHR '' ''"
    by (simp add: isWhiteSpace_def)
  have "dropWhile isWhiteSpace ?t = ?t"
  proof (cases "v = []")
    case True
    then show ?thesis using 3(2) by simp
  next
    case False
    then have "hd ?t = hd v"
      by (simp add: hd_join)
    moreover have "\<not> isWhiteSpace (hd v)"
      using False 3(2) by (cases rest) (auto simp: neq_Nil_conv)
    ultimately show ?thesis
      by (simp add: dropWhile_eq_self_iff)
  qed
  then show ?case
    using 3 split_word_space [of w "CHR '' ''" ?t] sp by simp
qed

lemma split_join_split: "split (join '' '' (split s)) = split s"
  by (rule split_join) (rule wordList_split)

text \<open>
  A text that neither begins nor ends with white space is cut into words only: no piece
  is empty, and the number of pieces is the number of words.
\<close>

lemma last_split:
  assumes "s \<noteq> []" and "\<not> isWhiteSpace (last s)"
  shows "last (split s) \<noteq> []"
  using assms
proof (induction s rule: split.induct)
  case (1 s)
  show ?case
  proof (cases "dropWhile (\<lambda>c. \<not> isWhiteSpace c) s")
    case Nil
    then have "split s = [s]"
      by (simp add: split_word)
    then show ?thesis
      using "1.prems"(1) by simp
  next
    case (Cons x r)
    let ?s' = "dropWhile isWhiteSpace r"
    have s: "s = takeWhile (\<lambda>c. \<not> isWhiteSpace c) s @ x # r"
      using Cons takeWhile_dropWhile_id [of "\<lambda>c. \<not> isWhiteSpace c" s] by simp
    have x: "isWhiteSpace x"
      using hd_dropWhile [of "\<lambda>c. \<not> isWhiteSpace c" s] Cons by simp
    have r: "r \<noteq> []"
    proof
      assume "r = []"
      then have "last s = x"
        using s by (metis last_snoc)
      then show False
        using x "1.prems"(2) by simp
    qed
    then have lr: "last s = last r"
      using s by (metis last_appendR last_ConsR list.distinct(1))
    have ne: "?s' \<noteq> []"
      using r lr "1.prems"(2) by (auto simp: dropWhile_eq_Nil_conv intro: last_in_set)
    have "last ?s' = last r"
      using ne by (metis last_appendR takeWhile_dropWhile_id)
    then have "last (split ?s') \<noteq> []"
      using "1.IH" [OF Cons ne] lr "1.prems"(2) by simp
    moreover have "split s = takeWhile (\<lambda>c. \<not> isWhiteSpace c) s # split ?s'"
      using Cons by (subst split.simps) simp
    ultimately show ?thesis
      using split_not_Nil [of ?s'] by simp
  qed
qed

lemma split_words:
  assumes "s \<noteq> []" and "\<not> isWhiteSpace (hd s)" and "\<not> isWhiteSpace (last s)"
  shows "[] \<notin> set (split s)"
proof -
  have "wordList ws \<Longrightarrow> hd ws \<noteq> [] \<Longrightarrow> last ws \<noteq> [] \<Longrightarrow> [] \<notin> set ws" for ws
    by (induction ws rule: wordList.induct) auto
  then show ?thesis
    using wordList_split [of s] hd_split [OF assms(1,2)] last_split [OF assms(1,3)] by blast
qed

lemma slice_nonneg:
  assumes "0 \<le> a" and "0 \<le> b"
  shows "slice xs a (a + b) = take (nat b) (drop (nat a) xs)"
  using assms by (auto simp: slice_def Let_def min_def)


lemma ceil_bounds:
  fixes n c :: int
  assumes "0 < c"
  shows "n \<le> (- ((- n) div c)) * c" and "(- ((- n) div c)) * c < n + c"
proof -
  define q where "q = (- n) div c"
  define r where "r = (- n) mod c"
  have "- n = q * c + r"
    unfolding q_def r_def by simp
  moreover have "(- q) * c = - (q * c)"
    by simp
  moreover have "0 \<le> r" and "r < c"
    using assms unfolding r_def by simp_all
  ultimately show "n \<le> (- ((- n) div c)) * c" and "(- ((- n) div c)) * c < n + c"
    unfolding q_def [symmetric] by linarith+
qed

lemma join_groups:
  assumes "0 < m" and "ws \<noteq> []" and "k * m < length ws + m"
  shows "join sep (map (\<lambda>j. join sep (take m (drop (j * m) ws))) [0..<k]) = join sep (take (k * m) ws)"
  using assms(3)
proof (induction k)
  case 0
  then show ?case by simp
next
  case (Suc k)
  show ?case
  proof (cases "k = 0")
    case True
    then show ?thesis by simp
  next
    case False
    let ?f = "\<lambda>j. join sep (take m (drop (j * m) ws))"
    have lt: "k * m < length ws"
      using Suc.prems by simp
    have a: "take (k * m) ws \<noteq> []"
      using False assms(1,2) by simp
    have b: "take m (drop (k * m) ws) \<noteq> []"
      using lt assms(1) by simp
    have "join sep (map ?f [0..<Suc k]) = join sep (map ?f [0..<k] @ [?f k])"
      by simp
    also have "\<dots> = join sep (map ?f [0..<k]) @ sep @ ?f k"
      using False by (subst join_append) simp_all
    also have "\<dots> = join sep (take (k * m) ws) @ sep @ ?f k"
      using Suc.IH lt by simp
    also have "\<dots> = join sep (take (k * m) ws @ take m (drop (k * m) ws))"
      using a b by (simp add: join_append)
    also have "take (k * m) ws @ take m (drop (k * m) ws) = take (Suc k * m) ws"
    proof -
      have "Suc k * m = k * m + m"
        by simp
      then show ?thesis
        by (simp only: take_add)
    qed
    finally show ?thesis .
  qed
qed

lemma chunkTexts:
  assumes "0 < c"
  shows "map_option (map chunkText) (processLongText s u c) =
           Some (map (\<lambda>j. join '' '' (take (nat c) (drop (j * nat c) (split s))))
                     [0..<nat (- ((- int (wordsLength s)) div c))])"
proof -
  have "slice (split s) (int j * c) (int j * c + c) = take (nat c) (drop (j * nat c) (split s))" for j
    using assms slice_nonneg [of "int j * c" c "split s"] by (simp add: nat_mult_distrib)
  then show ?thesis
    unfolding processLongText_pos [OF assms] by (simp add: comp_def)
qed

lemma join_chunkTexts:
  assumes "0 < c"
  shows "\<exists>chunks. processLongText s u c = Some chunks \<and> join '' '' (map chunkText chunks) = join '' '' (split s)"
proof -
  let ?n = "int (wordsLength s)"
  let ?K = "- ((- ?n) div c)"
  obtain chunks where ch: "processLongText s u c = Some chunks"
    using processLongText_pos [OF assms] by blast
  have K0: "0 \<le> ?K"
    using assms by (simp add: div_nonpos_pos_le0)
  have km: "int (nat ?K * nat c) = ?K * c"
    using K0 assms by simp
  have "int (length (split s)) \<le> int (nat ?K * nat c)"
    unfolding km using ceil_bounds(1) [OF assms, of ?n] by (simp add: wordsLength_def)
  then have lo: "length (split s) \<le> nat ?K * nat c"
    by linarith
  have "int (nat ?K * nat c) < int (length (split s) + nat c)"
    unfolding km using ceil_bounds(2) [OF assms, of ?n] assms by (simp add: wordsLength_def)
  then have hi: "nat ?K * nat c < length (split s) + nat c"
    by linarith
  have "map chunkText chunks =
          map (\<lambda>j. join '' '' (take (nat c) (drop (j * nat c) (split s)))) [0..<nat ?K]"
    using chunkTexts [OF assms, of s u] ch by simp
  then have "join '' '' (map chunkText chunks) = join '' '' (take (nat ?K * nat c) (split s))"
    using join_groups [of "nat c" "split s" "nat ?K" "'' ''"] assms hi split_not_Nil [of s] by simp
  then show ?thesis
    using ch lo by simp
qed

lemma ceil_small:
  fixes c :: int
  assumes "0 < c"
  shows "- ((- 1) div c) = 1" and "- ((- 2) div c) = (if 2 \<le> c then 1 else 2)"
proof -
  have "(- 1) div c = - 1"
    using assms by (intro int_div_pos_eq [where r = "c - 1"]) simp_all
  then show "- ((- 1) div c) = 1"
    by simp
  show "- ((- 2) div c) = (if 2 \<le> c then 1 else 2)"
  proof (cases "2 \<le> c")
    case True
    then have "(- 2) div c = - 1"
      by (intro int_div_pos_eq [where r = "c - 2"]) simp_all
    then show ?thesis
      using True by simp
  next
    case False
    then have "c = 1"
      using assms by simp
    then show ?thesis
      by simp
  qed
qed

lemma map_option_map_SomeD:
  assumes "map_option (map f) x = Some ys"
  shows "\<exists>xs. x = Some xs \<and> length xs = length ys \<and> (\<forall>c \<in> set xs. f c \<in> set ys)"
  using assms by (cases x) auto

subsection \<open>Number of chunks\<close>

text \<open>
  The number of words of a text is the number of pieces of its split that are not empty;
  for a text that neither begins nor ends with white space it is \<^verbatim>\<open>words.length\<close>.
\<close>

lemma numberOfWords_word:
  assumes "\<forall>ch \<in> set w. \<not> isWhiteSpace ch"
  shows "numberOfWords b (w @ s) =
           (if w = [] then numberOfWords b s else (if b then 0 else 1) + numberOfWords True s)"
  using assms by (induction w arbitrary: b) auto

lemma numberOfWords_dropWhile:
  "numberOfWords False (dropWhile isWhiteSpace s) = numberOfWords False s"
  by (induction s) auto

lemma numberOfWords_split:
  "numberOfWords False s = length (filter (\<lambda>w. w \<noteq> []) (split s))"
proof (induction s rule: split.induct)
  case (1 s)
  show ?case
  proof (cases "dropWhile (\<lambda>c. \<not> isWhiteSpace c) s")
    case Nil
    then have a: "\<forall>ch \<in> set s. \<not> isWhiteSpace ch"
      by simp
    then have "split s = [s]"
      by (rule split_word)
    then show ?thesis
      using numberOfWords_word [OF a, of False "[]"] by simp
  next
    case (Cons x r)
    let ?w = "takeWhile (\<lambda>c. \<not> isWhiteSpace c) s"
    let ?s' = "dropWhile isWhiteSpace r"
    have s: "s = ?w @ x # r"
      using Cons takeWhile_dropWhile_id [of "\<lambda>c. \<not> isWhiteSpace c" s] by simp
    have x: "isWhiteSpace x"
      using hd_dropWhile [of "\<lambda>c. \<not> isWhiteSpace c" s] Cons by simp
    have w: "\<forall>ch \<in> set ?w. \<not> isWhiteSpace ch"
      by (auto dest: set_takeWhileD)
    have sp: "split s = ?w # split ?s'"
      using Cons by (subst split.simps) simp
    have "numberOfWords False s = numberOfWords False (?w @ x # r)"
      using s by simp
    also have "\<dots> = (if ?w = [] then 0 else 1) + numberOfWords False r"
      using x by (simp add: numberOfWords_word [OF w])
    also have "numberOfWords False r = length (filter (\<lambda>w. w \<noteq> []) (split ?s'))"
      using "1.IH" [OF Cons] by (simp add: numberOfWords_dropWhile)
    finally show ?thesis
      unfolding sp by simp
  qed
qed

lemma wordCount_wordsLength:
  assumes "text \<noteq> []" and "\<not> isWhiteSpace (hd text)" and "\<not> isWhiteSpace (last text)"
  shows "wordCount text = wordsLength text"
proof -
  have "filter (\<lambda>w. w \<noteq> []) (split text) = split text"
    using split_words [OF assms] by (auto simp: filter_id_conv)
  then show ?thesis
    by (simp add: wordCount_def wordsLength_def numberOfWords_split)
qed

text \<open>
  Claim C1, as stated, fails: \<^verbatim>\<open>words.length\<close> counts an empty piece for leading and
  for trailing white space, and the loop and \<open>totalChunks\<close> follow \<^verbatim>\<open>words.length\<close>.
  The text \<^verbatim>\<open>a b\<close> followed by a space has two words, and with a chunk size of 2 the
  claim gives one chunk; \<open>processLongText\<close> returns two chunks, the second with an empty
  chunk text, each with a total of 2.
\<close>

theorem processLongText_trailing_space_counterexample:
  "wordCount ''a b '' = 2
   \<and> \<lceil>real (wordCount ''a b '') / real_of_int 2\<rceil> = 1
   \<and> map_option (map chunkText) (processLongText ''a b '' ''Summarize'' 2) = Some [''a b'', []]
   \<and> map_option (map totalChunks) (processLongText ''a b '' ''Summarize'' 2) = Some [Num 2, Num 2]"
proof -
  have n: "wordCount ''a b '' = 2"
    by code_simp
  have w: "split ''a b '' = [''a'', ''b'', []]"
    by code_simp
  have q: "\<lceil>real (2::nat) / real_of_int 2\<rceil> = 1"
    by simp
  have run: "processLongText ''a b '' ''Summarize'' 2 =
          Some (map (\<lambda>j. chunkAt (split ''a b '') ''Summarize'' 2
                               (Num (- ((- int (wordsLength ''a b '')) div 2))) (int j * 2))
                    [0..<nat (- ((- int (wordsLength ''a b '')) div 2))])"
    by (rule processLongText_pos) simp
  have two: "[0..<nat 2] = [0, 1]"
    by (simp add: upt_conv_Cons)
  have t: "map_option (map totalChunks) (processLongText ''a b '' ''Summarize'' 2) = Some [Num 2, Num 2]"
    unfolding run wordsLength_def w using two by simp
  have c: "map_option (map chunkText) (processLongText ''a b '' ''Summarize'' 2) = Some [''a b'', []]"
    unfolding run wordsLength_def w using two by (simp add: slice_def)
  show ?thesis
    using n q t c by simp
qed

text \<open>
  Claim C1, amended. For a non-empty text that neither begins nor ends with white space
  and a positive chunk size, \<open>processLongText\<close> returns, and it returns
  \<open>\<lceil>wordCount text / chunkSize\<rceil>\<close> chunks, each with that number in its field
  \<open>totalChunks\<close>.
\<close>

theorem processLongText_chunk_count:
  assumes "text \<noteq> []" and "\<not> isWhiteSpace (hd text)" and "\<not> isWhiteSpace (last text)"
    and "0 < chunkSize"
  shows "\<exists>chunks. processLongText text userRequest chunkSize = Some chunks
           \<and> int (length chunks) = \<lceil>real (wordCount text) / real_of_int chunkSize\<rceil>
           \<and> (\<forall>c \<in> set chunks.
                 totalChunks c = Num \<lceil>real (wordCount text) / real_of_int chunkSize\<rceil>)"
  using processLongText_length [OF assms(4), of "text" userRequest]
  unfolding wordCount_wordsLength [OF assms(1,2,3)] .

theorem processLongText_chunk_count_witness:
  "''one two  three'' \<noteq> [] \<and> \<not> isWhiteSpace (hd ''one two  three'')
   \<and> \<not> isWhiteSpace (last ''one two  three'') \<and> (0::int) < 2
   \<and> wordCount ''one two  three'' = 3
   \<and> (\<exists>chunks. processLongText ''one two  three'' ''Summarize'' 2 = Some chunks
         \<and> int (length chunks) = 2 \<and> (\<forall>c \<in> set chunks. totalChunks c = Num 2))"
proof -
  have w: "wordCount ''one two  three'' = 3"
    by code_simp
  have h: "\<not> isWhiteSpace (hd ''one two  three'')" and l: "\<not> isWhiteSpace (last ''one two  three'')"
    by (simp_all add: isWhiteSpace_def)
  have q: "\<lceil>real (3::nat) / real_of_int 2\<rceil> = 2"
    by (simp add: ceiling_quotient [of 3 2, simplified])
  have "\<exists>chunks. processLongText ''one two  three'' ''Summarize'' 2 = Some chunks
         \<and> int (length chunks) = 2 \<and> (\<forall>c \<in> set chunks. totalChunks c = Num 2)"
    using processLongText_chunk_count [OF _ h l, of 2 "''Summarize''"]
    unfolding w q by simp
  then show ?thesis
    using w h l by simp
qed


subsection \<open>Round trip of the words\<close>

text \<open>
  Claim C5, as stated, fails: the chunk texts carry no separator at their ends, so
  concatenating them glues the last word of a chunk to the first word of the next one.
  With the text \<^verbatim>\<open>a b\<close> and a chunk size of 1 the chunk texts are \<^verbatim>\<open>a\<close> and
  \<^verbatim>\<open>b\<close>; their concatenation splits into the single word \<^verbatim>\<open>ab\<close>.
\<close>

theorem chunkText_concat_counterexample:
  "map_option (\<lambda>chunks. split (concat (map chunkText chunks))) (processLongText ''a b'' ''Summarize'' 1)
     = Some [''ab'']
   \<and> split ''a b'' = [''a'', ''b'']"
proof -
  have w: "split ''a b'' = [''a'', ''b'']"
    by code_simp
  have s: "split ''ab'' = [''ab'']"
    by code_simp
  have "map_option (map chunkText) (processLongText ''a b'' ''Summarize'' 1) =
          Some (map (\<lambda>j. join '' '' (take (nat 1) (drop (j * nat 1) (split ''a b''))))
                    [0..<nat (- ((- int (wordsLength ''a b'')) div 1))])"
    by (rule chunkTexts) simp
  then have "map_option (map chunkText) (processLongText ''a b'' ''Summarize'' 1) = Some [''a'', ''b'']"
    unfolding wordsLength_def w by (simp add: upt_rec)
  then show ?thesis
    using w s by (auto simp: map_option_case split: option.splits)
qed

text \<open>
  Claim C5, amended. For a non-empty text and a positive chunk size, joining the chunk
  texts of all chunks in order with a single space between consecutive chunks, and
  splitting the result on white space, gives the white-space split of the text.
\<close>

theorem chunkText_roundtrip:
  assumes "text \<noteq> []" and "0 < chunkSize"
  shows "\<exists>chunks. processLongText text userRequest chunkSize = Some chunks
           \<and> split (join '' '' (map chunkText chunks)) = split text"
  using join_chunkTexts [OF assms(2), of "text" userRequest] by (auto simp: split_join_split)

theorem chunkText_roundtrip_witness:
  "''one two  three'' \<noteq> [] \<and> (0::int) < 2 \<and>
   (\<exists>chunks. processLongText ''one two  three'' ''Summarize'' 2 = Some chunks
      \<and> split (join '' '' (map chunkText chunks)) = split ''one two  three'')"
  using chunkText_roundtrip [of "''one two  three''" 2 "''Summarize''"] by simp

subsection \<open>Empty and blank texts\<close>

text \<open>
  Claim C6, as stated, fails: the split of an empty text is one empty piece, and the split
  of a blank text is two empty pieces, so the loop runs and chunks are pushed. With the
  default chunk size of 500 the empty text gives one chunk with an empty chunk text, and
  a text of two spaces gives one chunk whose chunk text is a single space.
\<close>

theorem processLongText_blank_counterexample:
  "map_option (map chunkText) (processLongText [] ''Summarize'' 500) = Some [[]]
   \<and> map_option (map chunkText) (processLongText ''  '' ''Summarize'' 500) = Some ['' '']"
proof -
  have e: "split [] = [[]]"
    by code_simp
  have b: "split ''  '' = [[], []]"
    by code_simp
  have g: "map_option (map chunkText) (processLongText s ''Summarize'' 500) =
          Some (map (\<lambda>j. join '' '' (take (nat 500) (drop (j * nat 500) (split s))))
                    [0..<nat (- ((- int (wordsLength s)) div 500))])" for s
    by (rule chunkTexts) simp
  have "map_option (map chunkText) (processLongText [] ''Summarize'' 500) = Some [[]]"
    unfolding g wordsLength_def e by simp
  moreover have "map_option (map chunkText) (processLongText ''  '' ''Summarize'' 500) = Some ['' '']"
    unfolding g wordsLength_def b by simp
  ultimately show ?thesis
    by (rule conjI)
qed

text \<open>
  Claim C6, amended. For every user request and every positive chunk size,
  \<open>processLongText\<close> on an empty or blank text returns a sequence that is not empty,
  and no chunk of it holds a word: one chunk with an empty chunk text for the empty text;
  for a blank text that is not empty, one chunk whose chunk text is a single space when
  the chunk size is at least 2, and two chunks with empty chunk texts when it is 1.
\<close>

theorem processLongText_blank:
  assumes "\<forall>ch \<in> set text. isWhiteSpace ch" and "0 < chunkSize"
  shows "\<exists>chunks. processLongText text userRequest chunkSize = Some chunks
           \<and> length chunks = (if text = [] \<or> 2 \<le> chunkSize then 1 else 2)
           \<and> (\<forall>c \<in> set chunks. chunkText c = (if text \<noteq> [] \<and> 2 \<le> chunkSize then '' '' else []))"
proof -
  let ?f = "\<lambda>ws j. join '' '' (take (nat chunkSize) (drop (j * nat chunkSize) ws))"
  have t: "map_option (map chunkText) (processLongText text userRequest chunkSize) =
             Some (map (?f (split text)) [0..<nat (- ((- int (length (split text))) div chunkSize))])"
    using chunkTexts [OF assms(2), of "text" userRequest] by (simp only: wordsLength_def)
  have one: "[0..<nat 1] = [0]" and two: "[0..<nat 2] = [0, 1]"
    by (simp_all add: upt_conv_Cons)
  consider (empty) "text = []" | (wide) "text \<noteq> []" "2 \<le> chunkSize" | (narrow) "text \<noteq> []" "chunkSize = 1"
    using assms(2) by fastforce
  then show ?thesis
  proof cases
    case empty
    have ws: "split text = [[]]"
      using empty by (simp add: split_word)
    have "take (nat chunkSize) [[]] = [[]::string]"
      using assms(2) by (cases "nat chunkSize") simp_all
    then have "map (?f [[]]) [0] = [[]]"
      by simp
    then have "map_option (map chunkText) (processLongText text userRequest chunkSize) = Some [[]]"
      unfolding t ws using ceil_small(1) [OF assms(2)] one by simp
    from map_option_map_SomeD [OF this] show ?thesis
      using empty by simp
  next
    case wide
    have ws: "split text = [[], []]"
      using assms(1) wide(1) by (rule split_blank)
    have "take (nat chunkSize) [[], []] = [[], []::string]"
      using wide(2) by simp
    then have "map (?f [[], []]) [0] = ['' '']"
      by simp
    then have "map_option (map chunkText) (processLongText text userRequest chunkSize) = Some ['' '']"
      unfolding t ws using ceil_small(2) [OF assms(2)] wide(2) one by simp
    from map_option_map_SomeD [OF this] show ?thesis
      using wide by simp
  next
    case narrow
    have ws: "split text = [[], []]"
      using assms(1) narrow(1) by (rule split_blank)
    have "map (?f [[], []]) [0, 1] = [[], []]"
      using narrow(2) by simp
    then have "map_option (map chunkText) (processLongText text userRequest chunkSize) = Some [[], []]"
      unfolding t ws using ceil_small(2) [OF assms(2)] narrow(2) two by simp
    from map_option_map_SomeD [OF this] show ?thesis
      using narrow by (simp add: numeral_2_eq_2)
  qed
qed

theorem processLongText_blank_witness:
  "isWhiteSpace CHR '' '' \<and> isWhiteSpace (CHR 0x0A) \<and> (0::int) < 500 \<and>
   (\<exists>chunks. processLongText [CHR '' '', CHR 0x0A] ''Summarize'' 500 = Some chunks
      \<and> length chunks = 1 \<and> (\<forall>c \<in> set chunks. chunkText c = '' ''))"
  using processLongText_blank [of "[CHR '' '', CHR 0x0A]" 500 "''Summarize''"]
  by (simp add: isWhiteSpace_def)


section \<open>Properties of the Model Gateway\<close>

text \<open>
  Claim C8. For every provider identifier, recognised or not, and every prompt,
  \<open>modelResponse\<close> gives what \<open>geminiResponse\<close> gives on that prompt, in the result and
  in the environment it leaves: no identifier fails for being unknown.
\<close>

theorem modelResponse_any_provider:
  "modelResponse generateContent providerId msg e = geminiResponse generateContent msg e"
  by (simp add: modelResponse_def)

section \<open>Properties of the Sequential Processor\<close>

lemma geminiResponse_calls:
  "geminiResponse g msg e = (r, e') \<Longrightarrow> calls e' = calls e @ [msg]"
  by (auto simp: geminiResponse_def split: prod.splits sum.splits)

lemma modelResponse_calls:
  "modelResponse g providerId msg e = (r, e') \<Longrightarrow> calls e' = calls e @ [msg]"
  by (auto simp: modelResponse_def dest: geminiResponse_calls)

lemma processChunks_loop_append:
  "processChunks_loop g (xs @ ys) acc e =
     (case processChunks_loop g xs acc e of
        ((acc', hit), e') \<Rightarrow> if hit then ((acc', True), e') else processChunks_loop g ys acc' e')"
  by (induction g xs acc e rule: processChunks_loop.induct)
     (auto split: prod.splits sum.splits)

lemma processChunks_loop_results:
  assumes "processChunks_loop g cs acc e = ((acc', hit), e')"
  shows "\<exists>new. acc' = acc @ new
           \<and> (if hit then length new < length cs else length new = length cs)
           \<and> calls e' = calls e @ map prompt (take (if hit then Suc (length new) else length new) cs)"
  using assms
proof (induction g cs acc e rule: processChunks_loop.induct)
  case (1 g acc e)
  then show ?case by simp
next
  case (2 g c rest acc e)
  obtain r e1 where m: "modelResponse g ''gemini'' (prompt c) e = (r, e1)"
    by (cases "modelResponse g ''gemini'' (prompt c) e")
  note c1 = modelResponse_calls [OF m]
  show ?case
  proof (cases r)
    case (Inr reply)
    then have "processChunks_loop g rest (acc @ [recorded c (Some reply) None]) e1 = ((acc', hit), e')"
      using "2.prems" m by simp
    from "2.IH"(2) [OF m [symmetric] Inr this]
    obtain new where "acc' = (acc @ [recorded c (Some reply) None]) @ new"
      and "if hit then length new < length rest else length new = length rest"
      and "calls e' = calls e1 @ map prompt (take (if hit then Suc (length new) else length new) rest)"
      by auto
    then show ?thesis
      using c1 by (intro exI [of _ "recorded c (Some reply) None # new"]) (auto split: if_splits)
  next
    case (Inl err)
    show ?thesis
    proof (cases "isRateLimit err")
      case True
      then show ?thesis
        using "2.prems" m Inl c1 by auto
    next
      case False
      then have "processChunks_loop g rest (acc @ [recorded c None (Some err)]) e1 = ((acc', hit), e')"
        using "2.prems" m Inl by simp
      from "2.IH"(1) [OF m [symmetric] Inl False this]
      obtain new where "acc' = (acc @ [recorded c None (Some err)]) @ new"
        and "if hit then length new < length rest else length new = length rest"
        and "calls e' = calls e1 @ map prompt (take (if hit then Suc (length new) else length new) rest)"
        by auto
      then show ?thesis
        using c1 by (intro exI [of _ "recorded c None (Some err) # new"]) (auto split: if_splits)
    qed
  qed
qed

lemma reached:
  assumes "processChunks_loop g earlier [] e = ((acc, False), e1)"
  shows "length acc = length earlier" and "calls e1 = calls e @ map prompt earlier"
  using processChunks_loop_results [OF assms] by simp_all

lemma sample_first:
  "processChunks_loop (scripted [Inr ''one'', Inl ''429 Too Many Requests'']) [sampleChunk 1 ''first''] [] start
     = (([recorded (sampleChunk 1 ''first'') (Some ''one'') None], False), \<lparr>world = 1, calls = [''first'']\<rparr>)"
  by (simp add: modelResponse_def geminiResponse_def scripted_def start_def sampleChunk_def)

lemma sample_second:
  "modelResponse (scripted [Inr ''one'', Inl ''429 Too Many Requests'']) ''gemini''
       (prompt (sampleChunk 2 ''second'')) \<lparr>world = 1, calls = [''first'']\<rparr>
     = (Inl ''Gemini API error: 429 Too Many Requests'', \<lparr>world = 2, calls = [''first'', ''second'']\<rparr>)"
  by (simp add: modelResponse_def geminiResponse_def scripted_def sampleChunk_def)

lemma sample_signature: "includes_str (toLowerCase ''Gemini API error: 429 Too Many Requests'') ''429''"
  by code_simp

lemma sample_other:
  "modelResponse (scripted [Inr ''one'', Inl ''503 Service Unavailable'']) ''gemini''
       (prompt (sampleChunk 2 ''second'')) \<lparr>world = 1, calls = [''first'']\<rparr>
     = (Inl ''Gemini API error: 503 Service Unavailable'', \<lparr>world = 2, calls = [''first'', ''second'']\<rparr>)"
  by (simp add: modelResponse_def geminiResponse_def scripted_def sampleChunk_def)

lemma sample_first':
  "processChunks_loop (scripted [Inr ''one'', Inl ''503 Service Unavailable'']) [sampleChunk 1 ''first''] [] start
     = (([recorded (sampleChunk 1 ''first'') (Some ''one'') None], False), \<lparr>world = 1, calls = [''first'']\<rparr>)"
  by (simp add: modelResponse_def geminiResponse_def scripted_def start_def sampleChunk_def)

lemma sample_no_signature:
  "\<not> (includes_str (toLowerCase ''Gemini API error: 503 Service Unavailable'') ''429''
      \<or> includes_str (toLowerCase ''Gemini API error: 503 Service Unavailable'') ''too many requests'')"
  by code_simp

text \<open>
  Claim C2. Let the loop have passed the chunks before chunk \<open>k\<close> without a rate limit,
  and let the gateway fail on chunk \<open>k\<close> with a message whose lower-case form contains
  \<^verbatim>\<open>429\<close> or \<^verbatim>\<open>too many requests\<close>. Then \<open>processChunks\<close> returns the outcomes
  recorded before chunk \<open>k\<close>, \<open>k - 1\<close> of them, none for chunk \<open>k\<close>, with the flag set and
  a processed count of \<open>k - 1\<close>; the environment is the one the failing call left, and the
  calls made are those for the chunks up to \<open>k\<close>, so no chunk after \<open>k\<close> is sent.
\<close>

theorem processChunks_rate_limit:
  assumes "processChunks_loop g earlier [] e = ((acc, False), e1)"
    and "modelResponse g ''gemini'' (prompt c) e1 = (Inl errorMessage, e2)"
    and "includes_str (toLowerCase errorMessage) ''429''
         \<or> includes_str (toLowerCase errorMessage) ''too many requests''"
  shows "processChunks g (earlier @ c # later) e =
           (\<lparr>results = acc, hitRateLimit = True, processedCount = length earlier,
             totalCount = length (earlier @ c # later)\<rparr>, e2)
         \<and> length acc = length earlier
         \<and> calls e2 = calls e @ map prompt (earlier @ [c])"
proof -
  have "isRateLimit errorMessage"
    using assms(3) by (simp add: isRateLimit_def)
  then have "processChunks_loop g (earlier @ c # later) [] e = ((acc, True), e2)"
    using assms(1,2) by (simp add: processChunks_loop_append)
  then show ?thesis
    using reached [OF assms(1)] modelResponse_calls [OF assms(2)]
    by (simp add: processChunks_def)
qed

theorem processChunks_rate_limit_witness:
  "processChunks (scripted [Inr ''one'', Inl ''429 Too Many Requests''])
       ([sampleChunk 1 ''first''] @ sampleChunk 2 ''second'' # [sampleChunk 3 ''third'']) start
     = (\<lparr>results = [recorded (sampleChunk 1 ''first'') (Some ''one'') None], hitRateLimit = True,
          processedCount = 1, totalCount = 3\<rparr>, \<lparr>world = 2, calls = [''first'', ''second'']\<rparr>)"
  using processChunks_rate_limit [OF sample_first sample_second disjI1 [OF sample_signature],
      of "[sampleChunk 3 ''third'']"]
  by simp

text \<open>
  Claim C3. Let the loop have passed the chunks before chunk \<open>k\<close> without a rate limit,
  and let the gateway fail on chunk \<open>k\<close> with a message that has no rate-limit signature.
  Then the loop goes on with the chunks after \<open>k\<close>, from the environment the failing call
  left and with an outcome recorded for chunk \<open>k\<close>; in the result that outcome stands at
  position \<open>k\<close>, its error is the message and its response is absent; and when there is a
  chunk \<open>k + 1\<close>, the next call of the gateway carries its prompt.
\<close>

theorem processChunks_other_error:
  assumes "processChunks_loop g earlier [] e = ((acc, False), e1)"
    and "modelResponse g ''gemini'' (prompt c) e1 = (Inl errorMessage, e2)"
    and "\<not> (includes_str (toLowerCase errorMessage) ''429''
            \<or> includes_str (toLowerCase errorMessage) ''too many requests'')"
  shows "processChunks_loop g (earlier @ c # later) [] e =
           processChunks_loop g later (acc @ [recorded c None (Some errorMessage)]) e2
         \<and> (\<exists>r e'. processChunks g (earlier @ c # later) e = (r, e')
               \<and> length earlier < length (results r)
               \<and> results r ! length earlier = recorded c None (Some errorMessage)
               \<and> error (results r ! length earlier) = Some errorMessage
               \<and> response (results r ! length earlier) = None
               \<and> (later \<noteq> [] \<longrightarrow>
                    calls e' ! (length (calls e) + length earlier + 1) = prompt (hd later)))"
proof -
  let ?rec = "recorded c None (Some errorMessage)"
  have nr: "\<not> isRateLimit errorMessage"
    using assms(3) by (simp add: isRateLimit_def)
  then have step: "processChunks_loop g (earlier @ c # later) [] e =
                     processChunks_loop g later (acc @ [?rec]) e2"
    using assms(1,2) by (simp add: processChunks_loop_append)
  obtain acc' hit e' where fin: "processChunks_loop g later (acc @ [?rec]) e2 = ((acc', hit), e')"
    by (metis surj_pair)
  from processChunks_loop_results [OF fin] obtain new
    where acc': "acc' = (acc @ [?rec]) @ new"
      and len: "if hit then length new < length later else length new = length later"
      and cl: "calls e' = calls e2 @ map prompt (take (if hit then Suc (length new) else length new) later)"
    by blast
  note r = reached [OF assms(1)]
  have c2: "calls e2 = calls e @ map prompt earlier @ [prompt c]"
    using modelResponse_calls [OF assms(2)] r(2) by simp
  have at: "acc' ! length earlier = ?rec"
    unfolding acc' using r(1) by (simp add: nth_append)
  have nxt: "calls e' ! (length (calls e) + length earlier + 1) = prompt (hd later)" if ne: "later \<noteq> []"
  proof -
    obtain n more where l: "later = n # more"
      using ne by (cases later) auto
    have "take (if hit then Suc (length new) else length new) later
            = n # take ((if hit then Suc (length new) else length new) - 1) more"
      using len l by (cases "if hit then Suc (length new) else length new") (auto split: if_splits)
    then have "calls e' = (calls e @ map prompt earlier @ [prompt c]) @ prompt n #
                 map prompt (take ((if hit then Suc (length new) else length new) - 1) more)"
      unfolding cl c2 by simp
    then have "calls e' ! length (calls e @ map prompt earlier @ [prompt c]) = prompt n"
      by (simp only: nth_append_length)
    then show ?thesis
      using l by simp
  qed
  have "processChunks g (earlier @ c # later) e =
          (\<lparr>results = acc', hitRateLimit = hit, processedCount = length acc',
            totalCount = length (earlier @ c # later)\<rparr>, e')"
    using step fin by (simp add: processChunks_def)
  moreover have "length earlier < length acc'"
    unfolding acc' using r(1) by simp
  moreover have "error ?rec = Some errorMessage" and "response ?rec = None"
    by (simp_all add: recorded_def)
  ultimately show ?thesis
    using step at nxt by simp
qed


theorem processChunks_other_error_witness:
  "\<exists>r e'. processChunks (scripted [Inr ''one'', Inl ''503 Service Unavailable''])
       ([sampleChunk 1 ''first''] @ sampleChunk 2 ''second'' # [sampleChunk 3 ''third'']) start = (r, e')
     \<and> results r ! 1 = recorded (sampleChunk 2 ''second'') None (Some ''Gemini API error: 503 Service Unavailable'')
     \<and> error (results r ! 1) = Some ''Gemini API error: 503 Service Unavailable''
     \<and> response (results r ! 1) = None
     \<and> calls e' ! 2 = ''third''"
proof -
  let ?g = "scripted [Inr ''one'', Inl ''503 Service Unavailable'']"
  let ?cs = "[sampleChunk 1 ''first''] @ sampleChunk 2 ''second'' # [sampleChunk 3 ''third'']"
  let ?rec = "recorded (sampleChunk 2 ''second'') None (Some ''Gemini API error: 503 Service Unavailable'')"
  from processChunks_other_error [OF sample_first' sample_other sample_no_signature,
      of "[sampleChunk 3 ''third'']"]
  obtain r e' where run: "processChunks ?g ?cs start = (r, e')"
    and at: "results r ! length [sampleChunk 1 ''first''] = ?rec"
    and err: "error (results r ! length [sampleChunk 1 ''first'']) = Some ''Gemini API error: 503 Service Unavailable''"
    and rsp: "response (results r ! length [sampleChunk 1 ''first'']) = None"
    and nxt: "calls e' ! (length (calls start) + length [sampleChunk 1 ''first''] + 1)
                = prompt (hd [sampleChunk 3 ''third''])"
    by blast
  have i: "length (calls start) + length [sampleChunk 1 ''first''] + 1 = 2"
    by (simp add: start_def)
  have p: "prompt (hd [sampleChunk 3 ''third'']) = ''third''"
    by (simp add: sampleChunk_def)
  show ?thesis
    using run at err rsp nxt unfolding i p by (intro exI [of _ r] exI [of _ e']) simp
qed

text \<open>
  Claim C4. For every chunk sequence and every behaviour of the provider, the result of
  \<open>processChunks\<close> has a processed count of at most the total count, and a processed count
  below the total count only with the rate-limit flag set.
\<close>

theorem processChunks_counts:
  assumes "processChunks g chunks e = (r, e')"
  shows "processedCount r \<le> totalCount r \<and> (processedCount r < totalCount r \<longrightarrow> hitRateLimit r)"
proof -
  obtain acc hit where l: "processChunks_loop g chunks [] e = ((acc, hit), e')"
    and r: "r = \<lparr>results = acc, hitRateLimit = hit, processedCount = length acc, totalCount = length chunks\<rparr>"
    using assms by (auto simp: processChunks_def split: prod.splits)
  from processChunks_loop_results [OF l] show ?thesis
    unfolding r by (auto split: if_splits)
qed


theorem processChunks_counts_witness:
  "processChunks (scripted [Inr ''one'', Inl ''429 Too Many Requests''])
       [sampleChunk 1 ''first'', sampleChunk 2 ''second'', sampleChunk 3 ''third''] start
     = (\<lparr>results = [recorded (sampleChunk 1 ''first'') (Some ''one'') None], hitRateLimit = True,
          processedCount = 1, totalCount = 3\<rparr>, \<lparr>world = 2, calls = [''first'', ''second'']\<rparr>)
   \<and> (1::nat) \<le> 3 \<and> (1::nat) < 3"
proof -
  have sig: "isRateLimit ''Gemini API error: 429 Too Many Requests''"
    by code_simp
  have ev: "processChunks (scripted [Inr ''one'', Inl ''429 Too Many Requests''])
       [sampleChunk 1 ''first'', sampleChunk 2 ''second'', sampleChunk 3 ''third''] start
     = (\<lparr>results = [recorded (sampleChunk 1 ''first'') (Some ''one'') None], hitRateLimit = True,
          processedCount = 1, totalCount = 3\<rparr>, \<lparr>world = 2, calls = [''first'', ''second'']\<rparr>)"
    using sig
    by (simp add: processChunks_def modelResponse_def geminiResponse_def scripted_def start_def sampleChunk_def)
  show ?thesis
    using processChunks_counts [OF ev] ev by simp
qed


section \<open>Properties of the Request Handler\<close>

lemma successfulResponses_append:
  "successfulResponses (xs @ ys) tc = successfulResponses xs tc @ successfulResponses ys tc"
  by (simp add: successfulResponses_def)

lemma successfulResponses_falsy:
  "\<not> truthy (response c) \<Longrightarrow> successfulResponses (c # ys) tc = successfulResponses ys tc"
  by (simp add: successfulResponses_def)

lemma sample_parts:
  "responseText \<lparr>results = [recorded (sampleChunk 1 ''first'') (Some ''one'') None,
                              recorded (sampleChunk 3 ''third'') (Some ''three'') None],
                   hitRateLimit = False, processedCount = 3, totalCount = 3\<rparr>
     = ''[Part 1/3]'' @ [CHR 0x0A] @ ''one'' @ [CHR 0x0A, CHR 0x0A] @ ''[Part 3/3]'' @ [CHR 0x0A] @ ''three''"
  by code_simp

lemma sample_run:
  "processChunks (scripted [Inr ''one'', Inr [], Inr ''three''])
       [sampleChunk 1 ''first'', sampleChunk 2 ''second'', sampleChunk 3 ''third''] start
     = (\<lparr>results = [recorded (sampleChunk 1 ''first'') (Some ''one'') None,
                     recorded (sampleChunk 2 ''second'') (Some []) None,
                     recorded (sampleChunk 3 ''third'') (Some ''three'') None],
          hitRateLimit = False, processedCount = 3, totalCount = 3\<rparr>,
        \<lparr>world = 3, calls = [''first'', ''second'', ''third'']\<rparr>)"
  by (simp add: processChunks_def modelResponse_def geminiResponse_def scripted_def start_def sampleChunk_def)

lemma infiniteContext_returns:
  "\<exists>rsp cs part pc tc e'. infiniteContext g s msg e = Some ((200, InfiniteMode rsp cs part pc tc), e')"
proof -
  obtain chunks where "processLongText s msg 500 = Some chunks"
    using processLongText_pos [of 500 s msg] by simp
  then show ?thesis
    by (simp add: infiniteContext_def split: prod.splits)
qed

lemma regularChat_not_infinite:
  "regularChat g msg e \<noteq> Some ((st, InfiniteMode rsp cs part pc tc), e')"
  by (simp add: regularChat_def split: prod.splits sum.splits)

text \<open>
  Claim C9. An outcome recorded as a success (no error) whose response is the empty
  string is dropped by the filter on truthy responses: the list of \<^verbatim>\<open>[Part n/total]\<close>
  sections and the combined response text are those of the result without that outcome.
\<close>

theorem empty_response_excluded:
  assumes "response c = Some []" and "error c = None"
  shows "successfulResponses (earlier @ c # later) tc = successfulResponses (earlier @ later) tc
         \<and> responseText (r\<lparr>results := earlier @ c # later\<rparr>)
             = responseText (r\<lparr>results := earlier @ later\<rparr>)"
proof -
  have "\<not> truthy (response c)"
    using assms(1) by (simp add: truthy_def)
  then have "successfulResponses (earlier @ c # later) n = successfulResponses (earlier @ later) n" for n
    by (simp add: successfulResponses_append successfulResponses_falsy)
  then show ?thesis
    by (simp add: responseText_def)
qed

theorem empty_response_excluded_witness:
  "response (recorded (sampleChunk 2 ''second'') (Some []) None) = Some []
   \<and> error (recorded (sampleChunk 2 ''second'') (Some []) None) = None
   \<and> responseText (fst (processChunks (scripted [Inr ''one'', Inr [], Inr ''three''])
        [sampleChunk 1 ''first'', sampleChunk 2 ''second'', sampleChunk 3 ''third''] start))
     = ''[Part 1/3]'' @ [CHR 0x0A] @ ''one'' @ [CHR 0x0A, CHR 0x0A] @ ''[Part 3/3]'' @ [CHR 0x0A] @ ''three''"
proof -
  let ?c = "recorded (sampleChunk 2 ''second'') (Some []) None"
  let ?r = "\<lparr>results = [], hitRateLimit = False, processedCount = 3, totalCount = 3\<rparr>"
  have a: "response ?c = Some []" and b: "error ?c = None"
    by (simp_all add: recorded_def)
  from empty_response_excluded [OF a b, of "[recorded (sampleChunk 1 ''first'') (Some ''one'') None]"
      "[recorded (sampleChunk 3 ''third'') (Some ''three'') None]" 3 ?r]
  have "responseText (fst (processChunks (scripted [Inr ''one'', Inr [], Inr ''three''])
        [sampleChunk 1 ''first'', sampleChunk 2 ''second'', sampleChunk 3 ''third''] start))
     = responseText \<lparr>results = [recorded (sampleChunk 1 ''first'') (Some ''one'') None,
                              recorded (sampleChunk 3 ''third'') (Some ''three'') None],
                   hitRateLimit = False, processedCount = 3, totalCount = 3\<rparr>"
    unfolding sample_run by simp
  then show ?thesis
    using a b unfolding sample_parts by simp
qed

text \<open>
  Claim C10. For a request with a non-empty message, the answer is the one of the chunked
  path exactly when the request is a POST, the mode is \<^verbatim>\<open>infinite\<close> and the full text
  is truthy. A POST with the mode \<^verbatim>\<open>infinite\<close> and an empty full text makes the single
  call of the default path: it is answered with the mode \<^verbatim>\<open>default\<close> and the text of
  the gateway, or with status 500 when that call fails.
\<close>

theorem handler_routing:
  assumes "message req = Some msg" and "msg \<noteq> []"
  shows "((\<exists>st rsp cs part pc tc e'. handler g req e = Some ((st, InfiniteMode rsp cs part pc tc), e'))
            \<longleftrightarrow> reqMethod req = ''POST'' \<and> mode req = Some ''infinite'' \<and> truthy (fullText req))
         \<and> (reqMethod req = ''POST'' \<and> mode req = Some ''infinite'' \<and> fullText req = Some [] \<longrightarrow>
              handler g req e =
                (case modelResponse g ''gemini'' msg e of
                   (Inr reply, e') \<Rightarrow> Some ((200, DefaultMode reply), e')
                 | (Inl errorMessage, e') \<Rightarrow>
                     Some ((500, ErrorDetails ''Internal server error'' errorMessage), e')))"
proof -
  have m: "truthy (message req)" "stringOf (message req) = msg"
    using assms by (simp_all add: truthy_def stringOf_def)
  consider (other) "reqMethod req \<noteq> ''POST''"
    | (chunked) "reqMethod req = ''POST''" "mode req = Some ''infinite'' \<and> truthy (fullText req)"
    | (regular) "reqMethod req = ''POST''" "\<not> (mode req = Some ''infinite'' \<and> truthy (fullText req))"
    by blast
  then show ?thesis
  proof cases
    case other
    then show ?thesis
      by (simp add: handler_def)
  next
    case chunked
    then have "handler g req e = infiniteContext g (stringOf (fullText req)) msg e"
      using m by (simp add: handler_def)
    then show ?thesis
      using chunked infiniteContext_returns [of g "stringOf (fullText req)" msg e]
      by (auto simp: truthy_def)
  next
    case regular
    then have "handler g req e = regularChat g msg e"
      using m by (auto simp: handler_def)
    then show ?thesis
      using regular regularChat_not_infinite [of g msg e] by (auto simp: regularChat_def)
  qed
qed

theorem handler_routing_witness:
  "handler (scripted [Inr ''one''])
      \<lparr>reqMethod = ''POST'', message = Some ''Summarize'', mode = Some ''infinite'', fullText = Some []\<rparr>
      start
     = Some ((200, DefaultMode ''one''), \<lparr>world = 1, calls = [''Summarize'']\<rparr>)"
  using handler_routing [of "\<lparr>reqMethod = ''POST'', message = Some ''Summarize'', mode = Some ''infinite'', fullText = Some []\<rparr>"
      "''Summarize''" "scripted [Inr ''one'']" start]
  by (simp add: modelResponse_def geminiResponse_def scripted_def start_def)

section \<open>Properties of the prompt\<close>

lemma template_parts:
  "systemPromptForEachChunk =
     templateInstance ''{{chunk_number}}'' ''{{total_chunks}}'' ''{{user_request}}'' ''{{chunk_text}}''"
  by (simp add: systemPromptForEachChunk_def templateInstance_def part1_def part2_def part3_def
      part4_def part5_def)

lemma no_brace_parts:
  "CHR ''{'' \<notin> set part1" "CHR ''{'' \<notin> set part2" "CHR ''{'' \<notin> set part3" "CHR ''{'' \<notin> set part4"
  by (simp_all add: part1_def part2_def part3_def part4_def)

lemma search_no_brace:
  assumes "CHR ''{'' \<notin> set xs"
  shows "search (CHR ''{'' # pat) (xs @ ys) =
           map_option (\<lambda>(front, back). (xs @ front, back)) (search (CHR ''{'' # pat) ys)"
  using assms
proof (induction xs)
  case Nil
  show ?case by (simp add: option.map_ident)
next
  case (Cons x xs)
  then show ?case
    by (simp add: option.map_comp comp_def case_prod_unfold)
qed

lemma search_here: "search (c # pat) ((c # pat) @ ys) = Some ([], ys)"
  by simp

lemma replace_at:
  assumes "CHR ''{'' \<notin> set xs"
  shows "replace (xs @ (CHR ''{'' # pat) @ ys) (CHR ''{'' # pat) rep =
           xs @ getSubstitution (CHR ''{'' # pat) xs ys rep @ ys"
  unfolding replace_def search_no_brace [OF assms] search_here by simp

lemma getSubstitution_plain:
  "CHR ''$'' \<notin> set rep \<Longrightarrow> getSubstitution m f b rep = rep"
  by (induction m f b rep rule: getSubstitution.induct) auto

lemma digits_chars: "ch \<in> set (digits n) \<Longrightarrow> 48 \<le> (of_char ch :: nat) \<and> (of_char ch :: nat) \<le> 57"
proof (induction n rule: digits.induct)
  case (1 n)
  show ?case
  proof (cases "n < 10")
    case True
    then show ?thesis
      using 1(2) by (subst (asm) digits.simps) auto
  next
    case False
    then have "ch \<in> set (digits (n div 10)) \<or> ch = char_of (48 + n mod 10)"
      using 1(2) by (subst (asm) digits.simps) auto
    then show ?thesis
    proof
      assume "ch \<in> set (digits (n div 10))"
      then show ?thesis using 1(1) False by simp
    next
      assume c: "ch = char_of (48 + n mod 10)"
      have "n mod 10 < 10" by simp
      then show ?thesis unfolding c by (simp add: )
    qed
  qed
qed

lemma toString_chars:
  "CHR ''{'' \<notin> set (toString x)" "CHR ''$'' \<notin> set (toString x)"
  by (cases x; auto dest: digits_chars)+

lemma buildPrompt_plain:
  assumes "CHR ''$'' \<notin> set u" and "CHR ''{'' \<notin> set u" and "CHR ''$'' \<notin> set t"
  shows "buildPrompt n tot u t = templateInstance (toString n) (toString tot) u t"
proof -
  note nb = no_brace_parts toString_chars(1) assms(2)
  have 1: "replace systemPromptForEachChunk ''{{chunk_number}}'' (toString n)
             = part1 @ toString n @ part2 @ ''{{total_chunks}}'' @ part3 @ ''{{user_request}}'' @ part4 @ ''{{chunk_text}}'' @ part5"
    unfolding template_parts templateInstance_def
    using replace_at [OF nb(1), of "''{chunk_number}}''"] by (simp add: getSubstitution_plain toString_chars)
  have 2: "replace (part1 @ toString n @ part2 @ ''{{total_chunks}}'' @ part3 @ ''{{user_request}}'' @ part4 @ ''{{chunk_text}}'' @ part5)
               ''{{total_chunks}}'' (toString tot)
             = part1 @ toString n @ part2 @ toString tot @ part3 @ ''{{user_request}}'' @ part4 @ ''{{chunk_text}}'' @ part5"
    using replace_at [of "part1 @ toString n @ part2" "''{total_chunks}}''"] nb
    by (simp add: getSubstitution_plain toString_chars)
  have 3: "replace (part1 @ toString n @ part2 @ toString tot @ part3 @ ''{{user_request}}'' @ part4 @ ''{{chunk_text}}'' @ part5)
               ''{{user_request}}'' u
             = part1 @ toString n @ part2 @ toString tot @ part3 @ u @ part4 @ ''{{chunk_text}}'' @ part5"
    using replace_at [of "part1 @ toString n @ part2 @ toString tot @ part3" "''{user_request}}''"] nb
    by (simp add: getSubstitution_plain assms)
  have 4: "replace (part1 @ toString n @ part2 @ toString tot @ part3 @ u @ part4 @ ''{{chunk_text}}'' @ part5)
               ''{{chunk_text}}'' t
             = part1 @ toString n @ part2 @ toString tot @ part3 @ u @ part4 @ t @ part5"
    using replace_at [of "part1 @ toString n @ part2 @ toString tot @ part3 @ u @ part4" "''{chunk_text}}''"] nb
    by (simp add: getSubstitution_plain assms)
  show ?thesis
    unfolding buildPrompt_def 1 2 3 4 templateInstance_def ..
qed


lemma buildPrompt_placeholder_request:
  assumes "CHR ''$'' \<notin> set t"
  shows "buildPrompt n tot ''{{chunk_text}}'' t = templateInstance (toString n) (toString tot) t ''{{chunk_text}}''"
proof -
  note nb = no_brace_parts toString_chars(1)
  have 1: "replace systemPromptForEachChunk ''{{chunk_number}}'' (toString n)
             = part1 @ toString n @ part2 @ ''{{total_chunks}}'' @ part3 @ ''{{user_request}}'' @ part4 @ ''{{chunk_text}}'' @ part5"
    unfolding template_parts templateInstance_def
    using replace_at [OF nb(1), of "''{chunk_number}}''"] by (simp add: getSubstitution_plain toString_chars)
  have 2: "replace (part1 @ toString n @ part2 @ ''{{total_chunks}}'' @ part3 @ ''{{user_request}}'' @ part4 @ ''{{chunk_text}}'' @ part5)
               ''{{total_chunks}}'' (toString tot)
             = part1 @ toString n @ part2 @ toString tot @ part3 @ ''{{user_request}}'' @ part4 @ ''{{chunk_text}}'' @ part5"
    using replace_at [of "part1 @ toString n @ part2" "''{total_chunks}}''"] nb
    by (simp add: getSubstitution_plain toString_chars)
  have 3: "replace (part1 @ toString n @ part2 @ toString tot @ part3 @ ''{{user_request}}'' @ part4 @ ''{{chunk_text}}'' @ part5)
               ''{{user_request}}'' ''{{chunk_text}}''
             = part1 @ toString n @ part2 @ toString tot @ part3 @ ''{{chunk_text}}'' @ part4 @ ''{{chunk_text}}'' @ part5"
    using replace_at [of "part1 @ toString n @ part2 @ toString tot @ part3" "''{user_request}}''"] nb
    by (simp add: getSubstitution_plain)
  have 4: "replace (part1 @ toString n @ part2 @ toString tot @ part3 @ ''{{chunk_text}}'' @ part4 @ ''{{chunk_text}}'' @ part5)
               ''{{chunk_text}}'' t
             = part1 @ toString n @ part2 @ toString tot @ part3 @ t @ part4 @ ''{{chunk_text}}'' @ part5"
    using replace_at [of "part1 @ toString n @ part2 @ toString tot @ part3" "''{chunk_text}}''"] nb
    by (simp add: getSubstitution_plain assms)
  show ?thesis
    unfolding buildPrompt_def 1 2 3 4 templateInstance_def ..
qed

lemma set_join: "set (join sep ws) \<subseteq> set sep \<union> \<Union> (set ` set ws)"
  by (induction sep ws rule: join.induct) auto

lemma set_split: "\<Union> (set ` set (split s)) \<subseteq> set s"
proof (induction s rule: split.induct)
  case (1 s)
  show ?case
  proof (cases "dropWhile (\<lambda>c. \<not> isWhiteSpace c) s")
    case Nil
    then have "split s = [s]"
      by (simp add: split_word)
    then show ?thesis
      by simp
  next
    case (Cons x r)
    have "set (dropWhile isWhiteSpace r) \<subseteq> set r"
      by (auto dest: set_dropWhileD)
    moreover have "set (x # r) \<subseteq> set s"
      unfolding Cons [symmetric] by (auto dest: set_dropWhileD)
    moreover have "set (takeWhile (\<lambda>c. \<not> isWhiteSpace c) s) \<subseteq> set s"
      by (auto dest: set_takeWhileD)
    ultimately show ?thesis
      using 1 [OF Cons] Cons by (subst split.simps) auto
  qed
qed

lemma chunkText_chars:
  assumes "ch \<notin> set s" and "ch \<noteq> CHR '' ''"
  shows "ch \<notin> set (join '' '' (take m (drop k (split s))))"
proof
  assume "ch \<in> set (join '' '' (take m (drop k (split s))))"
  then have "ch \<in> \<Union> (set ` set (take m (drop k (split s))))"
    using set_join [of "'' ''" "take m (drop k (split s))"] assms(2) by auto
  then have "ch \<in> \<Union> (set ` set (split s))"
    by (auto dest!: in_set_takeD in_set_dropD)
  then show False
    using set_split [of s] assms(1) by auto
qed

lemma processLongText_prompts_plain:
  assumes "0 < chunkSize" and "CHR ''$'' \<notin> set text"
    and "CHR ''$'' \<notin> set userRequest" and "CHR ''{'' \<notin> set userRequest"
  shows "\<exists>chunks. processLongText text userRequest chunkSize = Some chunks
           \<and> (\<forall>j < length chunks.
                 prompt (chunks ! j) =
                   templateInstance (digits (Suc j)) (digits (length chunks)) userRequest
                     (join '' '' (take (nat chunkSize) (drop (j * nat chunkSize) (split text)))))"
proof -
  let ?K = "- ((- int (wordsLength text)) div chunkSize)"
  let ?f = "\<lambda>j. chunkAt (split text) userRequest chunkSize (Num ?K) (int j * chunkSize)"
  have run: "processLongText text userRequest chunkSize = Some (map ?f [0..<nat ?K])"
    by (rule processLongText_pos [OF assms(1)])
  have K0: "0 \<le> ?K"
    using assms(1) by (simp add: div_nonpos_pos_le0)
  have "prompt (?f j) =
          templateInstance (digits (Suc j)) (digits (nat ?K)) userRequest
            (join '' '' (take (nat chunkSize) (drop (j * nat chunkSize) (split text))))" for j
  proof -
    have sl: "slice (split text) (int j * chunkSize) (int j * chunkSize + chunkSize)
                = take (nat chunkSize) (drop (j * nat chunkSize) (split text))"
      using assms(1) slice_nonneg [of "int j * chunkSize" chunkSize "split text"]
      by (simp add: nat_mult_distrib)
    have nr: "plus_one (floor_div (int j * chunkSize) chunkSize) = Num (int (Suc j))"
      using assms(1) by (simp add: floor_div_def quotient_def)
    have "CHR ''$'' \<notin> set (join '' '' (take (nat chunkSize) (drop (j * nat chunkSize) (split text))))"
      by (rule chunkText_chars [OF assms(2)]) simp
    then show ?thesis
      using K0 by (simp add: sl nr buildPrompt_plain assms(3,4) del: of_nat_Suc)
  qed
  then show ?thesis
    unfolding run by simp
qed

lemma templateInstance_request:
  "(templateInstance n t u c = templateInstance n t u' c) = (u = u')"
  by (simp add: templateInstance_def)

lemma buildPrompt_dollar:
  "buildPrompt (Num 1) (Num 1) ''Explain $& in a regex'' ''a''
     = templateInstance ''1'' ''1'' ''Explain {{user_request}} in a regex'' ''a''"
  by code_simp

text \<open>
  Claim C7 says that every prompt is the template with the chunk number, the total, the
  user request character for character, and the chunk text in place of the placeholders.
  \<open>buildPrompt\<close> does so for a user request without dollar sign and brace and a text
  without dollar sign (\<open>processLongText_prompts_plain\<close>), but not in general:
  \<^verbatim>\<open>replace\<close> reads \<^verbatim>\<open>$&\<close> in its replacement as the matched text. For the text
  \<^verbatim>\<open>a\<close> and the user request \<^verbatim>\<open>Explain $& in a regex\<close> the prompt holds
  \<^verbatim>\<open>Explain {{user_request}} in a regex\<close> where the claim has the request itself.
\<close>

theorem prompt_dollar_pattern:
  "map_option (map prompt) (processLongText ''a'' ''Explain $& in a regex'' 500)
     = Some [templateInstance ''1'' ''1'' ''Explain {{user_request}} in a regex'' ''a'']
   \<and> templateInstance ''1'' ''1'' ''Explain {{user_request}} in a regex'' ''a''
       \<noteq> templateInstance ''1'' ''1'' ''Explain $& in a regex'' ''a''"
proof -
  have w: "split ''a'' = [''a'']"
    by code_simp
  have n: "plus_one (floor_div 0 500) = Num 1"
    by (simp add: floor_div_def quotient_def)
  have "processLongText ''a'' ''Explain $& in a regex'' 500 =
          Some (map (\<lambda>j. chunkAt (split ''a'') ''Explain $& in a regex'' 500
                               (Num (- ((- int (wordsLength ''a'')) div 500))) (int j * 500))
                    [0..<nat (- ((- int (wordsLength ''a'')) div 500))])"
    by (rule processLongText_pos) simp
  then have "map_option (map prompt) (processLongText ''a'' ''Explain $& in a regex'' 500)
               = Some [buildPrompt (Num 1) (Num 1) ''Explain $& in a regex'' ''a'']"
    unfolding wordsLength_def w by (simp add: n slice_def)
  then show ?thesis
    unfolding buildPrompt_dollar by (simp add: templateInstance_request)
qed


end
